theory Spec2Isabelle
  imports Complex_Main
begin

section \<open>Data model: frames, series, errors\<close>

text \<open>
  The program (\<^verbatim>\<open>app.py\<close>) is a dashboard over two tables: the list of index
  components read from a web page, and the daily quotes of one symbol. Both are pandas
  frames: a list of column labels, and rows that carry an index label and one cell per
  column. A cell may be null (NaN); prices are idealised as real numbers, so the rounding
  of floating-point arithmetic is outside the model.
\<close>

type_synonym label = string
type_synonym symbol = string
type_synonym date = int
type_synonym cell = "real option"

datatype error = KeyError | ValueError | IndexError | Raised string

record ('i, 'v) frame =
  columns :: "label list"
  rows :: "('i \<times> 'v option list) list"

type_synonym quotes = "(date, real) frame"
type_synonym 'i series = "('i \<times> cell) list"

text \<open>
  A frame is rectangular: reading a row at a column position beyond its cells gives a
  null, as pandas pads a short row when it builds a frame.
\<close>

definition cell_at :: "'v option list \<Rightarrow> nat \<Rightarrow> 'v option" where
  "cell_at cs i = (if i < length cs then cs ! i else None)"

definition positions :: "label \<Rightarrow> label list \<Rightarrow> nat list" where
  "positions l ls = filter (\<lambda>i. ls ! i = l) [0..<length ls]"

definition index :: "('i, 'v) frame \<Rightarrow> 'i list" where
  "index f = map fst (rows f)"

definition complete_row :: "nat \<Rightarrow> 'v option list \<Rightarrow> bool" where
  "complete_row n cs = list_all (\<lambda>i. cell_at cs i \<noteq> None) [0..<n]"

text \<open>\<^verbatim>\<open>frame.dropna()\<close>: keeps the rows that have no null cell, in order.\<close>

definition dropna :: "('i, 'v) frame \<Rightarrow> ('i, 'v) frame" where
  "dropna f =
     \<lparr>columns = columns f,
      rows = filter (\<lambda>r. complete_row (length (columns f)) (snd r)) (rows f)\<rparr>"

text \<open>
  \<^verbatim>\<open>xs[start:]\<close>, Python's slice: a negative start counts from the end, and a start
  out of range is clipped.
\<close>

definition slice_from :: "int \<Rightarrow> 'a list \<Rightarrow> 'a list" where
  "slice_from start xs =
     (let n = int (length xs);
          b = (if start < 0 then max 0 (start + n) else min start n)
      in drop (nat b) xs)"

definition row_slice_from :: "int \<Rightarrow> ('i, 'v) frame \<Rightarrow> ('i, 'v) frame" where
  "row_slice_from start f = \<lparr>columns = columns f, rows = slice_from start (rows f)\<rparr>"

text \<open>
  \<^verbatim>\<open>frame[[l1, ...]]\<close>: the frame of the columns with these labels (every column that
  carries the label); KeyError when a label is no column.
\<close>

definition select :: "label list \<Rightarrow> ('i, 'v) frame \<Rightarrow> error + ('i, 'v) frame" where
  "select ls f =
     (if \<forall>l \<in> set ls. l \<in> set (columns f)
      then (let ps = concat (map (\<lambda>l. positions l (columns f)) ls)
            in Inr \<lparr>columns = map (\<lambda>i. columns f ! i) ps,
                    rows = map (\<lambda>r. (fst r, map (cell_at (snd r)) ps)) (rows f)\<rparr>)
      else Inl KeyError)"

text \<open>
  \<^verbatim>\<open>frame[l]\<close> read as one series: KeyError when the label is no column. With the
  label on several columns pandas hands back a frame, and the assignment of the
  overlay computed from it to a single column raises ValueError: the model raises it here.
\<close>

definition getitem :: "label \<Rightarrow> ('i, real) frame \<Rightarrow> error + 'i series" where
  "getitem l f =
     (case positions l (columns f) of
        [] \<Rightarrow> Inl KeyError
      | [i] \<Rightarrow> Inr (map (\<lambda>r. (fst r, cell_at (snd r) i)) (rows f))
      | _ \<Rightarrow> Inl ValueError)"

text \<open>
  \<^verbatim>\<open>series.rolling(p).mean()\<close>: at each position the mean of the \<open>p\<close> values ending
  there; null where fewer than \<open>p\<close> values are available, or one of them is null
  (\<^verbatim>\<open>min_periods\<close> defaults to the window). A negative window raises ValueError.
\<close>

definition window_mean :: "nat \<Rightarrow> cell list \<Rightarrow> nat \<Rightarrow> cell" where
  "window_mean p xs i =
     (if 0 < p \<and> p \<le> Suc i
      then (case those (take p (drop (Suc i - p) xs)) of
              None \<Rightarrow> None
            | Some vs \<Rightarrow> Some (sum_list vs / real p))
      else None)"

definition rolling_mean :: "int \<Rightarrow> 'i series \<Rightarrow> error + 'i series" where
  "rolling_mean p s =
     (if p < 0 then Inl ValueError
      else Inr (map (\<lambda>i. (fst (s ! i), window_mean (nat p) (map snd s) i)) [0..<length s]))"

text \<open>
  \<^verbatim>\<open>series.reindex(target)\<close>: the series read at the labels of \<open>target\<close>, null at a
  label the series does not have. A series whose labels are those of the target is
  returned as it is; otherwise the labels of the series must be unique (ValueError).
\<close>

definition lookup_cell :: "'i series \<Rightarrow> 'i \<Rightarrow> cell" where
  "lookup_cell s d = (case map_of s d of None \<Rightarrow> None | Some c \<Rightarrow> c)"

definition reindex :: "'i series \<Rightarrow> 'i list \<Rightarrow> error + 'i series" where
  "reindex s target =
     (if map fst s = target then Inr s
      else if distinct (map fst s) \<or> target = []
      then Inr (map (\<lambda>d. (d, lookup_cell s d)) target)
      else Inl ValueError)"

text \<open>
  \<^verbatim>\<open>frame[l] = series\<close>, for a series that carries the index of the frame: the values
  replace the columns labelled \<open>l\<close>, or become a new last column.
\<close>

definition setitem :: "label \<Rightarrow> 'v option list \<Rightarrow> ('i, 'v) frame \<Rightarrow> ('i, 'v) frame" where
  "setitem l vs f =
     (let n = length (columns f) in
      if l \<in> set (columns f)
      then \<lparr>columns = columns f,
            rows = map (\<lambda>(v, r). (fst r,
                      map (\<lambda>i. if columns f ! i = l then v else cell_at (snd r) i) [0..<n]))
                     (zip vs (rows f))\<rparr>
      else \<lparr>columns = columns f @ [l],
            rows = map (\<lambda>(v, r). (fst r, map (cell_at (snd r)) [0..<n] @ [v]))
                     (zip vs (rows f))\<rparr>)"

text \<open>Python's \<^verbatim>\<open>str\<close> of a natural number, for the f-strings that label overlays.\<close>

definition digit_char :: "nat \<Rightarrow> char" where
  "digit_char d = ''0123456789'' ! d"

fun str_nat :: "nat \<Rightarrow> string" where
  "str_nat n = (if n < 10 then [digit_char n] else str_nat (n div 10) @ [digit_char (n mod 10)])"

declare str_nat.simps [simp del]

section \<open>The components list\<close>

text \<open>
  \<^verbatim>\<open>load_sp500_components\<close> fetches the page, parses its tables, takes the first and
  indexes it by its \<^verbatim>\<open>Symbol\<close> column. The HTTP client and the HTML parser are
  libraries outside the program: they are parameters, and what they raise is passed on.
  This is the function at a call that runs it; its decorator keeps the table for later
  calls.
\<close>

definition SP500_URL :: string where
  "SP500_URL = ''https://en.wikipedia.org/wiki/List_of_S%26P_500_companies''"

text \<open>
  \<^verbatim>\<open>frame.set_index(l)\<close>: the column labelled \<open>l\<close> becomes the index and leaves the
  columns. KeyError when there is no such column; with the label on several columns
  there is no single index column (ValueError). Nothing checks that the keys are unique
  (\<^verbatim>\<open>verify_integrity\<close> is off by default).
\<close>

definition set_index :: "label \<Rightarrow> ('i, 'v) frame \<Rightarrow> error + ('v option, 'v) frame" where
  "set_index l f =
     (case positions l (columns f) of
        [] \<Rightarrow> Inl KeyError
      | [i] \<Rightarrow>
          (let keep = filter (\<lambda>j. j \<noteq> i) [0..<length (columns f)]
           in Inr \<lparr>columns = map (\<lambda>j. columns f ! j) keep,
                   rows = map (\<lambda>r. (cell_at (snd r) i, map (cell_at (snd r)) keep)) (rows f)\<rparr>)
      | _ \<Rightarrow> Inl ValueError)"

definition load_sp500_components ::
  "(string \<Rightarrow> (string \<times> string) list \<Rightarrow> error + string) \<Rightarrow>
   (string \<Rightarrow> error + (nat, string) frame list) \<Rightarrow> error + (string option, string) frame" where
  "load_sp500_components requests_get read_html =
     (let url = SP500_URL;
          headers = [(''User-Agent'', ''Mozilla/5.0 (Windows NT 10.0; Win64; x64)'')]
      in case requests_get url headers of
           Inl e \<Rightarrow> Inl e
         | Inr html_data \<Rightarrow>
             (case read_html html_data of
                Inl e \<Rightarrow> Inl e
              | Inr tables \<Rightarrow>
                  (case tables of
                     [] \<Rightarrow> Inl IndexError
                   | components # _ \<Rightarrow> set_index ''Symbol'' components)))"

section \<open>The quotes of a symbol\<close>

text \<open>
  The provider answers with a frame whose columns are labelled flat, or by tuples of
  labels on several levels (a tuple has a first level). The body of \<^verbatim>\<open>load_quotes\<close>
  (lines 27 to 31) keeps the first level of a multi-level labelling and returns the
  frame; it raises nothing of its own.
\<close>

datatype column_index = Index "label list" | MultiIndex "(label \<times> label list) list"

record raw_frame =
  raw_columns :: column_index
  raw_rows :: "(date \<times> cell list) list"

definition get_level_values_0 :: "(label \<times> label list) list \<Rightarrow> label list" where
  "get_level_values_0 ts = map fst ts"

definition load_quotes_body ::
  "(symbol \<Rightarrow> string \<Rightarrow> bool \<Rightarrow> error + raw_frame) \<Rightarrow> symbol \<Rightarrow> error + quotes" where
  "load_quotes_body yf_download symbol =
     (case yf_download symbol ''max'' False of
        Inl e \<Rightarrow> Inl e
      | Inr data \<Rightarrow>
          Inr \<lparr>columns = (case raw_columns data of
                            MultiIndex ts \<Rightarrow> get_level_values_0 ts
                          | Index ls \<Rightarrow> ls),
               rows = raw_rows data\<rparr>)"

text \<open>
  \<^verbatim>\<open>load_quotes\<close> is decorated with \<^verbatim>\<open>@st.cache_data\<close> (line 25): the frames it
  returned are kept, keyed by the symbol. A symbol in the cache is answered from it and
  the provider is not called; otherwise the body runs, and its frame is stored. An
  exception of the body passes through and stores nothing. The cache is a state: the
  call takes it and returns it.
\<close>

type_synonym quote_cache = "symbol \<rightharpoonup> quotes"

definition load_quotes ::
  "quote_cache \<Rightarrow> (symbol \<Rightarrow> string \<Rightarrow> bool \<Rightarrow> error + raw_frame) \<Rightarrow> symbol
   \<Rightarrow> (error + quotes) \<times> quote_cache" where
  "load_quotes cache yf_download symbol =
     (case cache symbol of
        Some data \<Rightarrow> (Inr data, cache)
      | None \<Rightarrow>
          (case load_quotes_body yf_download symbol of
             Inl e \<Rightarrow> (Inl e, cache)
           | Inr data \<Rightarrow> (Inr data, cache(symbol \<mapsto> data))))"

section \<open>The windowed view and its overlays\<close>

text \<open>
  Frames are objects: \<^verbatim>\<open>data\<close> and \<^verbatim>\<open>data_view\<close> are references, and the
  assignment of an overlay column writes into the object \<^verbatim>\<open>data_view\<close> refers to.
  The store is the list of the frames allocated so far; an address is a position in it.
\<close>

type_synonym addr = nat
type_synonym heap = "quotes list"

definition alloc :: "quotes \<Rightarrow> heap \<Rightarrow> addr \<times> heap" where
  "alloc f h = (length h, h @ [f])"

text \<open>
  \<^verbatim>\<open>data_view[prefix + str(period)] = data['Adj Close'].rolling(period).mean().reindex(data_view.index)\<close>:
  the right-hand side reads \<^verbatim>\<open>data\<close>, the assignment writes \<^verbatim>\<open>data_view\<close>.
\<close>

definition add_overlay :: "heap \<Rightarrow> addr \<Rightarrow> addr \<Rightarrow> string \<Rightarrow> int \<Rightarrow> heap \<times> (error + unit)" where
  "add_overlay h data data_view prefix period =
     (case getitem ''Adj Close'' (h ! data) of
        Inl e \<Rightarrow> (h, Inl e)
      | Inr s \<Rightarrow>
          (case rolling_mean period s of
             Inl e \<Rightarrow> (h, Inl e)
           | Inr m \<Rightarrow>
               (case reindex m (index (h ! data_view)) of
                  Inl e \<Rightarrow> (h, Inl e)
                | Inr r \<Rightarrow>
                    (h[data_view := setitem (prefix @ str_nat (nat period)) (map snd r)
                                      (h ! data_view)],
                     Inr ()))))"

definition optional_overlay ::
  "heap \<Rightarrow> addr \<Rightarrow> addr \<Rightarrow> string \<Rightarrow> int option \<Rightarrow> heap \<times> (error + unit)" where
  "optional_overlay h data data_view prefix choice =
     (case choice of
        None \<Rightarrow> (h, Inr ())
      | Some period \<Rightarrow> add_overlay h data data_view prefix period)"

text \<open>
  Lines 76 to 87 of \<^verbatim>\<open>main\<close>: \<^verbatim>\<open>data[-section:][['Adj Close']].copy()\<close> allocates
  the slice, the projection and the copy; then the two optional overlays, each with the
  period its slider gave (\<open>None\<close> when its checkbox is off). The result is the store
  and the address of \<^verbatim>\<open>data_view\<close>, or the error raised.
\<close>

definition main_data_view ::
  "heap \<Rightarrow> addr \<Rightarrow> int \<Rightarrow> int option \<Rightarrow> int option \<Rightarrow> heap \<times> (error + addr)" where
  "main_data_view h data section sma sma2 =
     (let (sliced, h1) = alloc (row_slice_from (- section) (h ! data)) h
      in case select [''Adj Close''] (h1 ! sliced) of
           Inl e \<Rightarrow> (h1, Inl e)
         | Inr projected \<Rightarrow>
             (let (tmp, h2) = alloc projected h1;
                  (data_view, h3) = alloc (h2 ! tmp) h2
              in case optional_overlay h3 data data_view ''SMA '' sma of
                   (h4, Inl e) \<Rightarrow> (h4, Inl e)
                 | (h4, Inr _) \<Rightarrow>
                     (case optional_overlay h4 data data_view ''SMA2 '' sma2 of
                        (h5, Inl e) \<Rightarrow> (h5, Inl e)
                      | (h5, Inr _) \<Rightarrow> (h5, Inr data_view))))"

text \<open>The table the run leaves in \<^verbatim>\<open>data_view\<close>, for a store that holds only \<^verbatim>\<open>data\<close>.\<close>

definition data_view :: "quotes \<Rightarrow> int \<Rightarrow> int option \<Rightarrow> int option \<Rightarrow> error + quotes" where
  "data_view data section sma sma2 =
     (case main_data_view [data] 0 section sma sma2 of
        (h, Inl e) \<Rightarrow> Inl e
      | (h, Inr a) \<Rightarrow> Inr (h ! a))"

text \<open>
  The widgets are the toolkit's: a slider is called with its label, bounds, default and
  optional step and answers with the value chosen, a checkbox with its label. \<^verbatim>\<open>main\<close>
  loads the quotes of the asset through the cache, drops the incomplete rows (line 70)
  and builds the view with what the widgets answer (lines 74 to 87). It returns the
  table, or the error raised, and the cache.
\<close>

record widgets =
  slider :: "string \<Rightarrow> int \<Rightarrow> int \<Rightarrow> int \<Rightarrow> int option \<Rightarrow> int"
  checkbox :: "string \<Rightarrow> bool"

definition main ::
  "widgets \<Rightarrow> quote_cache \<Rightarrow> (symbol \<Rightarrow> string \<Rightarrow> bool \<Rightarrow> error + raw_frame) \<Rightarrow> symbol
   \<Rightarrow> (error + quotes) \<times> quote_cache" where
  "main st cache yf_download asset =
     (case load_quotes cache yf_download asset of
        (Inl e, cache') \<Rightarrow> (Inl e, cache')
      | (Inr loaded, cache') \<Rightarrow>
          (let data = dropna loaded;
               section = slider st ''Number of Quotes'' 30
                           (min 2000 (int (length (rows data)))) 500 (Some 10)
           in (data_view data section
                 (if checkbox st ''SMA'' then Some (slider st ''SMA Period'' 5 500 20 None)
                  else None)
                 (if checkbox st ''SMA 2'' then Some (slider st ''SMA 2 Period'' 5 500 100 None)
                  else None),
               cache')))"

section \<open>Auxiliary facts about the frame operations\<close>

lemma map_cell_at_self: "map (cell_at cs) [0..<length cs] = cs"
  by (rule nth_equalityI) (simp_all add: cell_at_def)

lemma slice_from_as_drop:
  "slice_from b xs = drop (nat (if b < 0 then max 0 (b + int (length xs)) else min b (int (length xs)))) xs"
  by (simp add: slice_from_def Let_def)

lemma getitem_InrD:
  assumes "getitem l f = Inr s"
  obtains i where "positions l (columns f) = [i]" "s = map (\<lambda>r. (fst r, cell_at (snd r) i)) (rows f)"
  using assms by (auto simp add: getitem_def split: list.splits)

lemma positions_singleD:
  assumes "positions l ls = [i]"
  shows "l \<in> set ls" "ls ! i = l" "i < length ls"
proof -
  have "i \<in> set (positions l ls)" using assms by simp
  then show "ls ! i = l" "i < length ls" by (auto simp add: positions_def)
  then show "l \<in> set ls" by auto
qed

lemma select_single:
  assumes "positions l (columns f) = [i]"
  shows "select [l] f = Inr \<lparr>columns = [l], rows = map (\<lambda>r. (fst r, [cell_at (snd r) i])) (rows f)\<rparr>"
  using assms positions_singleD [OF assms] by (simp add: select_def)

lemma rolling_mean_nonneg:
  "0 \<le> p \<Longrightarrow> rolling_mean p s = Inr (map (\<lambda>i. (fst (s ! i), window_mean (nat p) (map snd s) i)) [0..<length s])"
  by (simp add: rolling_mean_def)

lemma reindex_window:
  assumes d: "distinct (map fst s)" and n: "n = length s"
  shows "reindex (map (\<lambda>i. (fst (s ! i), g i)) [0..<n]) (map (\<lambda>j. fst (s ! j)) [k..<n])
         = Inr (map (\<lambda>j. (fst (s ! j), g j)) [k..<n])"
proof -
  let ?m = "map (\<lambda>i. (fst (s ! i), g i)) [0..<n]"
  let ?t = "map (\<lambda>j. fst (s ! j)) [k..<n]"
  have fst_m: "map fst ?m = map fst s"
    using n by (intro nth_equalityI) simp_all
  show ?thesis
  proof (cases "map fst ?m = ?t")
    case True
    then have "length (map fst ?m) = length ?t" by simp
    then have "n = n - k" by simp
    then have "k = 0 \<or> n = 0" by arith
    then have "[k..<n] = [0..<n]" by auto
    with True show ?thesis by (simp add: reindex_def)
  next
    case False
    have dm: "distinct (map fst ?m)" using d fst_m by simp
    have "lookup_cell ?m (fst (s ! j)) = g j" if "j < n" for j
    proof -
      have "(fst (s ! j), g j) \<in> set ?m" using that by auto
      with dm have "map_of ?m (fst (s ! j)) = Some (g j)" by (rule map_of_is_SomeI)
      then show ?thesis by (simp add: lookup_cell_def)
    qed
    then have "map (\<lambda>d. (d, lookup_cell ?m d)) ?t = map (\<lambda>j. (fst (s ! j), g j)) [k..<n]"
      by simp
    with False dm show ?thesis by (simp add: reindex_def)
  qed
qed

lemma setitem_new:
  assumes "l \<notin> set cols" and "\<And>j. length (F j) = length cols"
  shows "setitem l (map g js) \<lparr>columns = cols, rows = map (\<lambda>j. (d j, F j)) js\<rparr>
         = \<lparr>columns = cols @ [l], rows = map (\<lambda>j. (d j, F j @ [g j])) js\<rparr>"
proof -
  have "map (cell_at (F j)) [0..<length cols] = F j" for j
    using map_cell_at_self [of "F j"] assms(2) [of j] by simp
  then show ?thesis
    using assms(1) by (simp add: setitem_def zip_map_map zip_same_conv_map o_def)
qed

lemma add_overlay_step:
  assumes a: "a < length h" and b: "b < length h"
    and s: "getitem ''Adj Close'' (h ! a) = Inr s"
    and d: "distinct (map fst s)"
    and p: "0 \<le> p"
    and v: "h ! b = \<lparr>columns = cols, rows = map (\<lambda>j. (fst (s ! j), F j)) [k..<length s]\<rparr>"
    and l: "prefix @ str_nat (nat p) \<notin> set cols"
    and F: "\<And>j. length (F j) = length cols"
  shows "add_overlay h a b prefix p =
           (h[b := \<lparr>columns = cols @ [prefix @ str_nat (nat p)],
                    rows = map (\<lambda>j. (fst (s ! j), F j @ [window_mean (nat p) (map snd s) j]))
                             [k..<length s]\<rparr>],
            Inr ())"
proof -
  have idx: "index (h ! b) = map (\<lambda>j. fst (s ! j)) [k..<length s]"
    by (simp add: v index_def o_def)
  have r: "reindex (map (\<lambda>i. (fst (s ! i), window_mean (nat p) (map snd s) i)) [0..<length s])
             (index (h ! b))
           = Inr (map (\<lambda>j. (fst (s ! j), window_mean (nat p) (map snd s) j)) [k..<length s])"
    unfolding idx by (rule reindex_window [OF d refl])
  have st: "setitem (prefix @ str_nat (nat p))
              (map (\<lambda>j. window_mean (nat p) (map snd s) j) [k..<length s]) (h ! b)
            = \<lparr>columns = cols @ [prefix @ str_nat (nat p)],
                    rows = map (\<lambda>j. (fst (s ! j), F j @ [window_mean (nat p) (map snd s) j]))
                             [k..<length s]\<rparr>"
    unfolding v by (rule setitem_new [OF l F])
  show ?thesis
    by (simp add: add_overlay_def s rolling_mean_nonneg [OF p] r o_def st)
qed

lemma drop_as_upt: "drop k xs = map (\<lambda>j. xs ! j) [k..<length xs]"
  by (rule nth_equalityI) simp_all

lemma optional_overlay_step:
  assumes a: "a < length h" and b: "b < length h"
    and s: "getitem ''Adj Close'' (h ! a) = Inr s"
    and d: "choice \<noteq> None \<longrightarrow> distinct (map fst s)"
    and p: "\<forall>p. choice = Some p \<longrightarrow> 0 \<le> p"
    and v: "h ! b = \<lparr>columns = cols, rows = map (\<lambda>j. (fst (s ! j), F j)) [k..<length s]\<rparr>"
    and l: "\<forall>p. choice = Some p \<longrightarrow> prefix @ str_nat (nat p) \<notin> set cols"
    and F: "\<And>j. length (F j) = length cols"
  shows "optional_overlay h a b prefix choice =
           (h[b := \<lparr>columns = cols @ (case choice of None \<Rightarrow> [] | Some p \<Rightarrow> [prefix @ str_nat (nat p)]),
                    rows = map (\<lambda>j. (fst (s ! j), F j @ (case choice of None \<Rightarrow> []
                                 | Some p \<Rightarrow> [window_mean (nat p) (map snd s) j])))
                             [k..<length s]\<rparr>],
            Inr ())"
proof (cases choice)
  case None
  have "h[b := h ! b] = h" by simp
  then show ?thesis using None v by (simp add: optional_overlay_def)
next
  case (Some q)
  with p l d have q: "0 \<le> q" "prefix @ str_nat (nat q) \<notin> set cols" "distinct (map fst s)"
    by auto
  from add_overlay_step [OF a b s q(3) q(1) v q(2) F] Some
  show ?thesis by (simp add: optional_overlay_def)
qed

lemma main_data_view_run:
  assumes a: "a < length h"
    and s: "getitem ''Adj Close'' (h ! a) = Inr s"
    and d: "sma \<noteq> None \<or> sma2 \<noteq> None \<longrightarrow> distinct (map fst s)"
    and p1: "\<forall>p. sma = Some p \<longrightarrow> 0 \<le> p"
    and p2: "\<forall>p. sma2 = Some p \<longrightarrow> 0 \<le> p"
    and k: "k = nat (if - section < 0 then max 0 (- section + int (length s))
                     else min (- section) (int (length s)))"
  shows "main_data_view h a section sma sma2 =
     (h @ [row_slice_from (- section) (h ! a),
           \<lparr>columns = [''Adj Close''],
            rows = map (\<lambda>j. (fst (s ! j), [snd (s ! j)])) [k..<length s]\<rparr>,
           \<lparr>columns = [''Adj Close''] @
              (case sma of None \<Rightarrow> [] | Some p \<Rightarrow> [''SMA '' @ str_nat (nat p)]) @
              (case sma2 of None \<Rightarrow> [] | Some p \<Rightarrow> [''SMA2 '' @ str_nat (nat p)]),
            rows = map (\<lambda>j. (fst (s ! j), [snd (s ! j)] @
                     (case sma of None \<Rightarrow> [] | Some p \<Rightarrow> [window_mean (nat p) (map snd s) j]) @
                     (case sma2 of None \<Rightarrow> [] | Some p \<Rightarrow> [window_mean (nat p) (map snd s) j])))
                   [k..<length s]\<rparr>],
      Inr (length h + 2))"
proof -
  from s obtain i where i: "positions ''Adj Close'' (columns (h ! a)) = [i]"
    and s_def: "s = map (\<lambda>r. (fst r, cell_at (snd r) i)) (rows (h ! a))"
    by (rule getitem_InrD)
  define sl where "sl = row_slice_from (- section) (h ! a)"
  define proj :: quotes where "proj = \<lparr>columns = [''Adj Close''],
                rows = map (\<lambda>j. (fst (s ! j), [snd (s ! j)])) [k..<length s]\<rparr>"
  define c1 where "c1 = (case sma of None \<Rightarrow> [] | Some p \<Rightarrow> [''SMA '' @ str_nat (nat p)])"
  define c2 where "c2 = (case sma2 of None \<Rightarrow> [] | Some p \<Rightarrow> [''SMA2 '' @ str_nat (nat p)])"
  define o1 where "o1 = (\<lambda>j. case sma of None \<Rightarrow> [] | Some p \<Rightarrow> [window_mean (nat p) (map snd s) j])"
  define o2 where "o2 = (\<lambda>j. case sma2 of None \<Rightarrow> [] | Some p \<Rightarrow> [window_mean (nat p) (map snd s) j])"
  define v4 :: quotes where "v4 = \<lparr>columns = [''Adj Close''] @ c1,
                    rows = map (\<lambda>j. (fst (s ! j), [snd (s ! j)] @ o1 j)) [k..<length s]\<rparr>"
  define v5 :: quotes where "v5 = \<lparr>columns = ([''Adj Close''] @ c1) @ c2,
                    rows = map (\<lambda>j. (fst (s ! j), ([snd (s ! j)] @ o1 j) @ o2 j)) [k..<length s]\<rparr>"
  define b where "b = length h + 2"
  define h3 where "h3 = h @ [sl, proj, proj]"
  have len: "length (rows (h ! a)) = length s" by (simp add: s_def)
  have sl_rows: "rows sl = drop k (rows (h ! a))"
    by (simp add: sl_def row_slice_from_def slice_from_as_drop len k)
  have "map (\<lambda>r. (fst r, [cell_at (snd r) i])) (drop k (rows (h ! a)))
        = map (\<lambda>r. (fst r, [snd r])) (drop k s)"
    by (simp add: s_def drop_map o_def)
  also have "\<dots> = map (\<lambda>j. (fst (s ! j), [snd (s ! j)])) [k..<length s]"
    by (simp add: drop_as_upt [of k s] o_def)
  finally have proj_rows: "map (\<lambda>r. (fst r, [cell_at (snd r) i])) (rows sl)
        = map (\<lambda>j. (fst (s ! j), [snd (s ! j)])) [k..<length s]"
    by (simp only: sl_rows)
  have "positions ''Adj Close'' (columns sl) = [i]"
    using i by (simp add: sl_def row_slice_from_def)
  from select_single [OF this]
  have sel: "select [''Adj Close''] sl = Inr proj"
    by (simp only: proj_rows proj_def)
  have a3: "a < length h3" and b3: "b < length h3" using a by (simp_all add: h3_def b_def)
  have s3: "getitem ''Adj Close'' (h3 ! a) = Inr s" using a s by (simp add: h3_def nth_append)
  have v3: "h3 ! b = \<lparr>columns = [''Adj Close''],
                rows = map (\<lambda>j. (fst (s ! j), [snd (s ! j)])) [k..<length s]\<rparr>"
    by (simp add: h3_def b_def nth_append proj_def)
  have l3: "\<forall>p. sma = Some p \<longrightarrow> ''SMA '' @ str_nat (nat p) \<notin> set [''Adj Close'']"
    by simp
  from d have d1: "sma \<noteq> None \<longrightarrow> distinct (map fst s)"
    and d2: "sma2 \<noteq> None \<longrightarrow> distinct (map fst s)" by simp_all
  have step1: "optional_overlay h3 a b ''SMA '' sma = (h3[b := v4], Inr ())"
    unfolding v4_def c1_def o1_def
    by (rule optional_overlay_step [OF a3 b3 s3 d1 p1 v3 l3]) simp
  let ?h4 = "h3[b := v4]"
  have a4: "a < length ?h4" and b4: "b < length ?h4" using a3 b3 by simp_all
  have "a \<noteq> b" using a by (simp add: b_def)
  then have s4: "getitem ''Adj Close'' (?h4 ! a) = Inr s" using s3 by simp
  have v4': "?h4 ! b = \<lparr>columns = [''Adj Close''] @ c1,
                    rows = map (\<lambda>j. (fst (s ! j), [snd (s ! j)] @ o1 j)) [k..<length s]\<rparr>"
    using b3 by (simp add: v4_def)
  have l4: "\<forall>p. sma2 = Some p \<longrightarrow> ''SMA2 '' @ str_nat (nat p) \<notin> set ([''Adj Close''] @ c1)"
    by (simp add: c1_def split: option.split)
  have F4: "length ([snd (s ! j)] @ o1 j) = length ([''Adj Close''] @ c1)" for j
    by (simp add: c1_def o1_def split: option.split)
  have step2: "optional_overlay ?h4 a b ''SMA2 '' sma2 = (?h4[b := v5], Inr ())"
    unfolding v5_def c2_def o2_def
    by (rule optional_overlay_step [OF a4 b4 s4 d2 p2 v4' l4 F4])
  have fin: "?h4[b := v5] = h @ [sl, proj, v5]"
    by (simp add: h3_def b_def list_update_append)
  have allocs: "alloc sl h = (length h, h @ [sl])"
    "(h @ [sl]) ! length h = sl"
    "alloc proj (h @ [sl]) = (Suc (length h), h @ [sl, proj])"
    "(h @ [sl, proj]) ! Suc (length h) = proj"
    "alloc proj (h @ [sl, proj]) = (b, h3)"
    by (simp_all add: alloc_def b_def h3_def nth_append)
  have "main_data_view h a section sma sma2 = (h @ [sl, proj, v5], Inr b)"
    unfolding main_data_view_def sl_def [symmetric]
    by (simp only: allocs Let_def prod.case sel sum.case step1 step2 fin)
  then show ?thesis
    by (simp only: sl_def proj_def v5_def c1_def c2_def o1_def o2_def b_def append_assoc)
qed

section \<open>Indexing the components by symbol\<close>

text \<open>
  Claim C4, as the code has it. When the page is fetched and parsed,
  \<^verbatim>\<open>load_sp500_components\<close> takes the first table: without a \<^verbatim>\<open>Symbol\<close> column it
  fails with KeyError; with one it returns the table keyed by the cells of that column,
  row by row in table order, and the column leaves the columns. The keys are not
  checked for duplicates.
\<close>

theorem components_indexed_by_symbol:
  assumes "requests_get SP500_URL [(''User-Agent'', ''Mozilla/5.0 (Windows NT 10.0; Win64; x64)'')] = Inr html_data"
    and "read_html html_data = Inr (components # others)"
  shows "(''Symbol'' \<notin> set (columns components) \<longrightarrow>
            load_sp500_components requests_get read_html = Inl KeyError)
       \<and> (\<forall>i. positions ''Symbol'' (columns components) = [i] \<longrightarrow>
            (\<exists>keyed. load_sp500_components requests_get read_html = Inr keyed
               \<and> index keyed = map (\<lambda>r. cell_at (snd r) i) (rows components)
               \<and> ''Symbol'' \<notin> set (columns keyed)))"
proof (intro conjI allI impI)
  assume "''Symbol'' \<notin> set (columns components)"
  then have "\<forall>j<length (columns components). columns components ! j \<noteq> ''Symbol''"
    by (metis nth_mem)
  then have "positions ''Symbol'' (columns components) = []"
    by (simp add: positions_def filter_empty_conv)
  then show "load_sp500_components requests_get read_html = Inl KeyError"
    using assms by (simp add: load_sp500_components_def set_index_def)
next
  fix i assume i: "positions ''Symbol'' (columns components) = [i]"
  have only: "j < length (columns components) \<Longrightarrow> columns components ! j = ''Symbol'' \<Longrightarrow> j = i" for j
  proof -
    assume "j < length (columns components)" "columns components ! j = ''Symbol''"
    then have "j \<in> set (positions ''Symbol'' (columns components))" by (simp add: positions_def)
    with i show "j = i" by simp
  qed
  then have "''Symbol'' \<notin> set (map (\<lambda>j. columns components ! j)
                 (filter (\<lambda>j. j \<noteq> i) [0..<length (columns components)]))"
    by auto
  then show "\<exists>keyed. load_sp500_components requests_get read_html = Inr keyed
               \<and> index keyed = map (\<lambda>r. cell_at (snd r) i) (rows components)
               \<and> ''Symbol'' \<notin> set (columns keyed)"
    using assms i by (simp add: load_sp500_components_def set_index_def index_def o_def Let_def)
qed

text \<open>
  Claim C4 as stated (duplicate symbols make the load fail) does not hold: a table with
  the same symbol on two rows is indexed without an error, and both rows keep the key.
\<close>

theorem duplicate_symbols_are_accepted:
  "load_sp500_components (\<lambda>url headers. Inr ''<table>'')
     (\<lambda>html_data. Inr [\<lparr>columns = [''Symbol'', ''Security''],
                        rows = [(0, [Some ''MMM'', Some ''3M'']), (1, [Some ''MMM'', Some ''3M Company''])]\<rparr>])
   = Inr \<lparr>columns = [''Security''],
          rows = [(Some ''MMM'', [Some ''3M'']), (Some ''MMM'', [Some ''3M Company''])]\<rparr>"
  by (simp add: load_sp500_components_def set_index_def positions_def cell_at_def Let_def)

theorem components_indexed_by_symbol_witness:
  "load_sp500_components (\<lambda>url headers. Inr ''<table>'')
     (\<lambda>html_data. Inr [\<lparr>columns = [''Security'', ''GICS Sector''],
                        rows = [(0, [Some ''3M'', Some ''Industrials''])]\<rparr>])
   = Inl KeyError
   \<and> (\<exists>keyed. load_sp500_components (\<lambda>url headers. Inr ''<table>'')
        (\<lambda>html_data. Inr [\<lparr>columns = [''Symbol'', ''Security''],
                        rows = [(0, [Some ''MMM'', Some ''3M'']), (1, [Some ''AOS'', Some ''A. O. Smith''])]\<rparr>])
        = Inr keyed \<and> index keyed = [Some ''MMM'', Some ''AOS''])"
proof
  show "load_sp500_components (\<lambda>url headers. Inr ''<table>'')
     (\<lambda>html_data. Inr [\<lparr>columns = [''Security'', ''GICS Sector''],
                        rows = [(0, [Some ''3M'', Some ''Industrials''])]\<rparr>])
   = Inl KeyError"
    using components_indexed_by_symbol [of "\<lambda>url headers. Inr ''<table>''" "''<table>''"
     "\<lambda>html_data. Inr [\<lparr>columns = [''Security'', ''GICS Sector''],
                        rows = [(0, [Some ''3M'', Some ''Industrials''])]\<rparr>]"
     "\<lparr>columns = [''Security'', ''GICS Sector''],
                        rows = [(0, [Some ''3M'', Some ''Industrials''])]\<rparr>" "[]"]
    by simp
  have p: "positions ''Symbol'' [''Symbol'', ''Security''] = [0]"
    by (simp add: positions_def)
  show "\<exists>keyed. load_sp500_components (\<lambda>url headers. Inr ''<table>'')
        (\<lambda>html_data. Inr [\<lparr>columns = [''Symbol'', ''Security''],
                        rows = [(0, [Some ''MMM'', Some ''3M'']), (1, [Some ''AOS'', Some ''A. O. Smith''])]\<rparr>])
        = Inr keyed \<and> index keyed = [Some ''MMM'', Some ''AOS'']"
    using components_indexed_by_symbol [of "\<lambda>url headers. Inr ''<table>''" "''<table>''"
     "\<lambda>html_data. Inr [\<lparr>columns = [''Symbol'', ''Security''],
                        rows = [(0, [Some ''MMM'', Some ''3M'']), (1, [Some ''AOS'', Some ''A. O. Smith''])]\<rparr>]"
     "\<lparr>columns = [''Symbol'', ''Security''],
                        rows = [(0, [Some ''MMM'', Some ''3M'']), (1, [Some ''AOS'', Some ''A. O. Smith''])]\<rparr>" "[]"]
    by (force simp add: p cell_at_def)
qed

section \<open>The table left in the view\<close>

text \<open>
  For a frame with one \<^verbatim>\<open>Adj Close\<close> column, a positive number of quotes and
  overlay periods that are not negative, the run succeeds and the view is known row by
  row: the last rows of the series, each with its adjusted close and, for every overlay
  that is switched on, the rolling mean of the full series at that row.
\<close>

lemma str_nat_examples: "str_nat 3 = ''3''" "str_nat 20 = ''20''"
  by (simp_all add: str_nat.simps digit_char_def)

lemma data_view_run:
  assumes s: "getitem ''Adj Close'' data = Inr s"
    and d: "sma \<noteq> None \<or> sma2 \<noteq> None \<longrightarrow> distinct (map fst s)"
    and p1: "\<forall>p. sma = Some p \<longrightarrow> 0 \<le> p"
    and p2: "\<forall>p. sma2 = Some p \<longrightarrow> 0 \<le> p"
    and w: "0 < section"
  shows "data_view data section sma sma2 =
     Inr \<lparr>columns = [''Adj Close''] @
              (case sma of None \<Rightarrow> [] | Some p \<Rightarrow> [''SMA '' @ str_nat (nat p)]) @
              (case sma2 of None \<Rightarrow> [] | Some p \<Rightarrow> [''SMA2 '' @ str_nat (nat p)]),
            rows = map (\<lambda>j. (fst (s ! j), [snd (s ! j)] @
                     (case sma of None \<Rightarrow> [] | Some p \<Rightarrow> [window_mean (nat p) (map snd s) j]) @
                     (case sma2 of None \<Rightarrow> [] | Some p \<Rightarrow> [window_mean (nat p) (map snd s) j])))
                   [length s - nat section..<length s]\<rparr>"
proof -
  have a: "0 < length [data]" by simp
  have s0: "getitem ''Adj Close'' ([data] ! 0) = Inr s" using s by simp
  have k: "length s - nat section =
             nat (if - section < 0 then max 0 (- section + int (length s))
                  else min (- section) (int (length s)))"
    using w by (simp add: max_def) arith
  show ?thesis
    unfolding data_view_def main_data_view_run [OF a s0 d p1 p2 k]
    by simp
qed

lemma those_map_Some: "those (map Some ys) = Some ys"
  by (induction ys) simp_all

lemma window_mean_Some:
  assumes "0 < p" "p \<le> Suc j"
  shows "window_mean p (map Some xs) j = Some (sum_list (take p (drop (Suc j - p) xs)) / real p)"
  using assms by (simp add: window_mean_def take_map drop_map those_map_Some)

lemma window_mean_None: "Suc j < p \<Longrightarrow> window_mean p cs j = None"
  by (simp add: window_mean_def)

lemma getitem_at:
  assumes "positions l cols = [i]"
  shows "getitem l \<lparr>columns = cols, rows = map (\<lambda>j. (d j, F j)) js\<rparr>
         = Inr (map (\<lambda>j. (d j, cell_at (F j) i)) js)"
  using assms by (simp add: getitem_def o_def)

lemma view_positions:
  "positions ''Adj Close'' ([''Adj Close''] @
       (case sma of None \<Rightarrow> [] | Some p \<Rightarrow> [''SMA '' @ str_nat (nat p)]) @
       (case sma2 of None \<Rightarrow> [] | Some p \<Rightarrow> [''SMA2 '' @ str_nat (nat p)])) = [0]"
  "positions (''SMA '' @ x) ([''Adj Close''] @ [''SMA '' @ x] @
       (case sma2 of None \<Rightarrow> [] | Some p \<Rightarrow> [''SMA2 '' @ str_nat (nat p)])) = [1]"
  "positions (''SMA2 '' @ y) ([''Adj Close''] @
       (case sma of None \<Rightarrow> [] | Some p \<Rightarrow> [''SMA '' @ str_nat (nat p)]) @ [''SMA2 '' @ y])
     = [length (case sma of None \<Rightarrow> [] | Some p \<Rightarrow> [''SMA '' @ str_nat (nat p)]) + 1]"
  by (simp_all add: positions_def split: option.split)

lemma view_columns:
  assumes s: "getitem ''Adj Close'' data = Inr s"
    and d: "distinct (map fst s)"
    and valid: "\<forall>q. sma = Some q \<or> sma2 = Some q \<longrightarrow> 0 \<le> q"
    and w: "0 < w"
    and which: "sma = Some P \<and> prefix = ''SMA '' \<or> sma2 = Some P \<and> prefix = ''SMA2 ''"
  shows "\<exists>v. data_view data w sma sma2 = Inr v
           \<and> index v = map fst (drop (length s - nat w) s)
           \<and> getitem ''Adj Close'' v = Inr (drop (length s - nat w) s)
           \<and> getitem (prefix @ str_nat (nat P)) v
               = Inr (map (\<lambda>j. (fst (s ! j), window_mean (nat P) (map snd s) j))
                        [length s - nat w..<length s])"
proof -
  define k where "k = length s - nat w"
  define c1 where "c1 = (case sma of None \<Rightarrow> [] | Some p \<Rightarrow> [''SMA '' @ str_nat (nat p)])"
  define c2 where "c2 = (case sma2 of None \<Rightarrow> [] | Some p \<Rightarrow> [''SMA2 '' @ str_nat (nat p)])"
  define o1 where "o1 = (\<lambda>j. case sma of None \<Rightarrow> [] | Some p \<Rightarrow> [window_mean (nat p) (map snd s) j])"
  define o2 where "o2 = (\<lambda>j. case sma2 of None \<Rightarrow> [] | Some p \<Rightarrow> [window_mean (nat p) (map snd s) j])"
  define v :: quotes where
    "v = \<lparr>columns = [''Adj Close''] @ c1 @ c2,
          rows = map (\<lambda>j. (fst (s ! j), [snd (s ! j)] @ o1 j @ o2 j)) [k..<length s]\<rparr>"
  from valid have p1: "\<forall>p. sma = Some p \<longrightarrow> 0 \<le> p" and p2: "\<forall>p. sma2 = Some p \<longrightarrow> 0 \<le> p"
    by simp_all
  from d have d': "sma \<noteq> None \<or> sma2 \<noteq> None \<longrightarrow> distinct (map fst s)" by simp
  have run: "data_view data w sma sma2 = Inr v"
    unfolding v_def c1_def c2_def o1_def o2_def k_def
    by (rule data_view_run [OF s d' p1 p2 w])
  have idx: "index v = map fst (drop k s)"
    by (simp add: v_def index_def o_def drop_as_upt [of k s])
  have "positions ''Adj Close'' ([''Adj Close''] @ c1 @ c2) = [0]"
    unfolding c1_def c2_def by (rule view_positions(1))
  then have "getitem ''Adj Close'' v = Inr (map (\<lambda>j. (fst (s ! j), cell_at ([snd (s ! j)] @ o1 j @ o2 j) 0)) [k..<length s])"
    unfolding v_def by (rule getitem_at)
  then have adj: "getitem ''Adj Close'' v = Inr (drop k s)"
    by (simp add: cell_at_def drop_as_upt [of k s, symmetric])
  have ov: "getitem (prefix @ str_nat (nat P)) v
               = Inr (map (\<lambda>j. (fst (s ! j), window_mean (nat P) (map snd s) j)) [k..<length s])"
    using which
  proof
    assume h: "sma = Some P \<and> prefix = ''SMA ''"
    then have c1: "c1 = [''SMA '' @ str_nat (nat P)]" and o1: "o1 = (\<lambda>j. [window_mean (nat P) (map snd s) j])"
      by (simp_all add: c1_def o1_def)
    have "positions (''SMA '' @ str_nat (nat P)) ([''Adj Close''] @ [''SMA '' @ str_nat (nat P)] @ c2) = [1]"
      unfolding c2_def by (rule view_positions(2))
    then have "getitem (''SMA '' @ str_nat (nat P)) v
        = Inr (map (\<lambda>j. (fst (s ! j), cell_at ([snd (s ! j)] @ o1 j @ o2 j) 1)) [k..<length s])"
      unfolding v_def c1 by (rule getitem_at)
    then show ?thesis using h by (simp add: o1 cell_at_def)
  next
    assume h: "sma2 = Some P \<and> prefix = ''SMA2 ''"
    then have c2: "c2 = [''SMA2 '' @ str_nat (nat P)]" and o2: "o2 = (\<lambda>j. [window_mean (nat P) (map snd s) j])"
      by (simp_all add: c2_def o2_def)
    have len: "length (o1 j) = length c1" for j
      by (simp add: o1_def c1_def split: option.split)
    have "positions (''SMA2 '' @ str_nat (nat P)) ([''Adj Close''] @ c1 @ [''SMA2 '' @ str_nat (nat P)])
            = [length c1 + 1]"
      unfolding c1_def by (rule view_positions(3))
    then have "getitem (''SMA2 '' @ str_nat (nat P)) v
        = Inr (map (\<lambda>j. (fst (s ! j), cell_at ([snd (s ! j)] @ o1 j @ o2 j) (length c1 + 1))) [k..<length s])"
      unfolding v_def c2 by (rule getitem_at)
    moreover have "cell_at ([snd (s ! j)] @ o1 j @ o2 j) (length c1 + 1) = window_mean (nat P) (map snd s) j" for j
      using len [of j] by (simp add: o2 cell_at_def nth_append)
    ultimately show ?thesis using h by simp
  qed
  from run idx adj ov show ?thesis unfolding k_def by blast
qed

section \<open>The window\<close>

text \<open>
  Claim C8. For a frame with an \<^verbatim>\<open>Adj Close\<close> column and a positive number of
  quotes \<open>w\<close>, the view without overlays has the single column \<^verbatim>\<open>Adj Close\<close>, and its
  rows are the last \<open>w\<close> rows of the series (all of them when there are fewer), in their
  order, each with its date and its adjusted close.
\<close>

theorem windowed_view_is_suffix:
  assumes s: "getitem ''Adj Close'' data = Inr s" and w: "0 < w"
  shows "\<exists>v. data_view data w None None = Inr v
           \<and> columns v = [''Adj Close'']
           \<and> rows v = map (\<lambda>r. (fst r, [snd r])) (drop (length s - nat w) s)
           \<and> index v = drop (length (rows data) - nat w) (index data)"
proof -
  from s obtain i where s_def: "s = map (\<lambda>r. (fst r, cell_at (snd r) i)) (rows data)"
    by (rule getitem_InrD)
  have run: "data_view data w None None =
      Inr \<lparr>columns = [''Adj Close''],
           rows = map (\<lambda>j. (fst (s ! j), [snd (s ! j)])) [length s - nat w..<length s]\<rparr>"
    using data_view_run [OF s _ _ _ w, of None None] by simp
  have r: "map (\<lambda>j. (fst (s ! j), [snd (s ! j)])) [length s - nat w..<length s]
           = map (\<lambda>r. (fst r, [snd r])) (drop (length s - nat w) s)"
    by (simp add: drop_as_upt [of "length s - nat w" s] o_def)
  have "map fst (map (\<lambda>r. (fst r, [snd r])) (drop (length s - nat w) s))
        = drop (length (rows data) - nat w) (index data)"
    by (simp add: s_def index_def drop_map o_def)
  with run r show ?thesis by (simp add: index_def)
qed

theorem windowed_view_is_suffix_witness:
  "\<exists>v. data_view \<lparr>columns = [''Close'', ''Adj Close''],
                    rows = [(1, [Some 11, Some 10]), (2, [Some 21, Some 20]),
                            (3, [Some 31, Some 30]), (4, [Some 41, Some 40])]\<rparr> 2 None None = Inr v
       \<and> columns v = [''Adj Close'']
       \<and> rows v = [(3, [Some 30]), (4, [Some 40])]"
  using windowed_view_is_suffix [of "\<lparr>columns = [''Close'', ''Adj Close''],
                    rows = [(1, [Some 11, Some 10]), (2, [Some 21, Some 20]),
                            (3, [Some 31, Some 30]), (4, [Some 41, Some 40])]\<rparr>"
          "[(1, Some 10), (2, Some 20), (3, Some 30), (4, Some 40)]" 2]
  by (auto simp add: getitem_def positions_def cell_at_def)

section \<open>Overlays: rolling means of the full series\<close>

lemma example_adj_close:
  "getitem ''Adj Close'' \<lparr>columns = [''Close'', ''Adj Close''],
                    rows = [(1, [Some 11, Some 10]), (2, [Some 21, Some 20]),
                            (3, [Some 31, Some 30]), (4, [Some 41, Some 40])]\<rparr>
   = Inr [(1, Some 10), (2, Some 20), (3, Some 30), (4, Some 40)]"
  by (simp add: getitem_def positions_def cell_at_def)

lemma example_rolling_3:
  "rolling_mean 3 [(1::int, Some 10), (2, Some 20), (3, Some 30), (4, Some 40)]
   = Inr [(1, None), (2, None), (3, Some 20), (4, Some 30)]"
  by (simp add: rolling_mean_def window_mean_def)

text \<open>
  Claim C1. Let \<open>s\<close> be the \<^verbatim>\<open>Adj Close\<close> series of the full frame, with values
  \<open>xs\<close> and distinct dates, and let an overlay with period \<open>P\<close> be switched on (the first,
  labelled \<^verbatim>\<open>SMA P\<close>, or the second, labelled \<^verbatim>\<open>SMA2 P\<close>). Then the overlay column
  of the view is the rolling mean of the full series, restricted to the dates of the
  window. So at every windowed row that has \<open>P\<close> values of the full series up to and
  including it, the overlay is defined: it is the mean of those \<open>P\<close> values, also when
  some of them lie before the first windowed row.
\<close>

theorem overlay_computed_on_full_series:
  assumes s: "getitem ''Adj Close'' data = Inr s"
    and xs: "map snd s = map Some xs"
    and d: "distinct (map fst s)"
    and valid: "\<forall>q. sma = Some q \<or> sma2 = Some q \<longrightarrow> 0 \<le> q"
    and P: "0 < P" and w: "0 < w"
    and which: "sma = Some P \<and> prefix = ''SMA '' \<or> sma2 = Some P \<and> prefix = ''SMA2 ''"
  shows "\<exists>v m. data_view data w sma sma2 = Inr v
           \<and> rolling_mean P s = Inr m
           \<and> index v = drop (length s - nat w) (map fst s)
           \<and> getitem (prefix @ str_nat (nat P)) v = Inr (drop (length s - nat w) m)
           \<and> (\<forall>t. length s - nat w + t < length s \<and> nat P \<le> Suc (length s - nat w + t) \<longrightarrow>
                 snd (drop (length s - nat w) m ! t) =
                   Some (sum_list (take (nat P) (drop (Suc (length s - nat w + t) - nat P) xs))
                         / real_of_int P))"
proof -
  define k where "k = length s - nat w"
  define m where "m = map (\<lambda>i. (fst (s ! i), window_mean (nat P) (map snd s) i)) [0..<length s]"
  from view_columns [OF s d valid w which]
  obtain v where run: "data_view data w sma sma2 = Inr v"
    and idx: "index v = map fst (drop k s)"
    and col: "getitem (prefix @ str_nat (nat P)) v
               = Inr (map (\<lambda>j. (fst (s ! j), window_mean (nat P) (map snd s) j)) [k..<length s])"
    unfolding k_def by blast
  have m: "rolling_mean P s = Inr m"
    using P by (simp add: rolling_mean_def m_def)
  have dm: "drop k m = map (\<lambda>j. (fst (s ! j), window_mean (nat P) (map snd s) j)) [k..<length s]"
    by (simp add: m_def drop_map)
  have val: "snd (drop k m ! t) =
               Some (sum_list (take (nat P) (drop (Suc (k + t) - nat P) xs)) / real_of_int P)"
    if "k + t < length s" "nat P \<le> Suc (k + t)" for t
  proof -
    from that(1) have e: "[k..<length s] ! t = k + t" by (rule nth_upt)
    from that(1) have "t < length [k..<length s]" by simp
    then have "map (\<lambda>j. (fst (s ! j), window_mean (nat P) (map snd s) j)) [k..<length s] ! t
        = (fst (s ! ([k..<length s] ! t)), window_mean (nat P) (map snd s) ([k..<length s] ! t))"
      by (rule nth_map)
    then have "drop k m ! t = (fst (s ! (k + t)), window_mean (nat P) (map snd s) (k + t))"
      by (simp only: dm e)
    moreover have "window_mean (nat P) (map Some xs) (k + t) =
        Some (sum_list (take (nat P) (drop (Suc (k + t) - nat P) xs)) / real (nat P))"
      using P that(2) by (intro window_mean_Some) simp_all
    ultimately show ?thesis using P by (simp add: xs)
  qed
  from run m idx col dm val show ?thesis
    unfolding k_def by (auto simp add: drop_map)
qed

theorem overlay_computed_on_full_series_witness:
  "\<exists>v. data_view \<lparr>columns = [''Close'', ''Adj Close''],
                    rows = [(1, [Some 11, Some 10]), (2, [Some 21, Some 20]),
                            (3, [Some 31, Some 30]), (4, [Some 41, Some 40])]\<rparr> 2 (Some 3) None = Inr v
       \<and> index v = [3, 4]
       \<and> getitem ''SMA 3'' v = Inr [(3, Some 20), (4, Some 30)]"
proof -
  let ?S = "[(1::int, Some (10::real)), (2, Some 20), (3, Some 30), (4, Some 40)]"
  have xs: "map snd ?S = map Some [10, 20, 30, 40]" by simp
  have d: "distinct (map fst ?S)" by simp
  have valid: "\<forall>q. Some 3 = Some q \<or> None = Some q \<longrightarrow> 0 \<le> (q::int)" by simp
  have which: "Some (3::int) = Some 3 \<and> ''SMA '' = ''SMA '' \<or> None = Some (3::int) \<and> ''SMA '' = ''SMA2 ''"
    by simp
  have P: "0 < (3::int)" and w: "0 < (2::int)" by simp_all
  from overlay_computed_on_full_series [OF example_adj_close xs d valid P w which]
  obtain v m where run: "data_view \<lparr>columns = [''Close'', ''Adj Close''],
                    rows = [(1, [Some 11, Some 10]), (2, [Some 21, Some 20]),
                            (3, [Some 31, Some 30]), (4, [Some 41, Some 40])]\<rparr> 2 (Some 3) None = Inr v"
    and m: "rolling_mean 3 ?S = Inr m"
    and idx: "index v = drop (length ?S - nat 2) (map fst ?S)"
    and col: "getitem (''SMA '' @ str_nat (nat 3)) v = Inr (drop (length ?S - nat 2) m)"
    by blast
  from m have m': "m = [(1, None), (2, None), (3, Some 20), (4, Some 30)]"
    by (simp only: example_rolling_3 sum.inject)
  from idx have "index v = [3, 4]" by simp
  moreover from col have "getitem ''SMA 3'' v = Inr [(3, Some 20), (4, Some 30)]"
    by (simp add: m' str_nat_examples)
  ultimately show ?thesis using run by blast
qed

text \<open>
  Claim C5. With at least \<open>P\<close> values in the full series, the overlay at the last
  windowed date is the mean of the last \<open>P\<close> adjusted closes of the full series; the
  window size plays no part, so \<open>P\<close> may exceed it.
\<close>

theorem last_overlay_value:
  assumes s: "getitem ''Adj Close'' data = Inr s"
    and xs: "map snd s = map Some xs"
    and d: "distinct (map fst s)"
    and valid: "\<forall>q. sma = Some q \<or> sma2 = Some q \<longrightarrow> 0 \<le> q"
    and P: "0 < P" and enough: "nat P \<le> length s" and w: "0 < w"
    and which: "sma = Some P \<and> prefix = ''SMA '' \<or> sma2 = Some P \<and> prefix = ''SMA2 ''"
  shows "\<exists>v col. data_view data w sma sma2 = Inr v
           \<and> getitem (prefix @ str_nat (nat P)) v = Inr col
           \<and> col \<noteq> [] \<and> index v \<noteq> []
           \<and> last (index v) = fst (last s)
           \<and> last col = (fst (last s),
                          Some (sum_list (drop (length xs - nat P) xs) / real_of_int P))"
proof -
  define k where "k = length s - nat w"
  define n where "n = length s"
  define f where "f = (\<lambda>j. (fst (s ! j), window_mean (nat P) (map snd s) j))"
  from view_columns [OF s d valid w which]
  obtain v where run: "data_view data w sma sma2 = Inr v"
    and idx: "index v = map fst (drop k s)"
    and col: "getitem (prefix @ str_nat (nat P)) v = Inr (map f [k..<n])"
    unfolding k_def n_def f_def by blast
  from P have "0 < nat P" by simp
  with enough have pos: "0 < length s" by linarith
  then have n: "0 < n" by (simp only: n_def)
  from w have "0 < nat w" by simp
  with pos have k: "k < n" unfolding k_def n_def by linarith
  then have s_ne: "s \<noteq> []" and dk: "drop k s \<noteq> []" by (auto simp add: n_def)
  have len_xs: "length xs = n"
    using arg_cong [OF xs, of length] by (simp add: n_def)
  from k have upt: "[k..<n] = [k..<n - 1] @ [n - 1]"
    by (metis Suc_diff_1 n less_Suc_eq_le upt_Suc_append)
  have "last (map f [k..<n]) = f (n - 1)"
    by (subst upt) simp
  moreover have "fst (s ! (n - 1)) = fst (last s)"
    using s_ne by (simp add: last_conv_nth n_def)
  moreover have "window_mean (nat P) (map Some xs) (n - 1) =
      Some (sum_list (take (nat P) (drop (Suc (n - 1) - nat P) xs)) / real (nat P))"
    using P enough n by (intro window_mean_Some) (simp_all add: n_def)
  moreover have "take (nat P) (drop (Suc (n - 1) - nat P) xs) = drop (length xs - nat P) xs"
    using n enough by (simp add: len_xs n_def)
  ultimately have l: "last (map f [k..<n]) =
      (fst (last s), Some (sum_list (drop (length xs - nat P) xs) / real_of_int P))"
    using P by (simp add: f_def xs)
  have ne: "map f [k..<n] \<noteq> []" using k by simp
  have li: "last (index v) = fst (last s)"
    using dk by (simp add: idx last_map last_drop k n_def [symmetric])
  have i_ne: "index v \<noteq> []" using dk by (simp add: idx)
  from run col ne i_ne li l show ?thesis by blast
qed

theorem last_overlay_value_witness:
  "\<exists>v col. data_view \<lparr>columns = [''Close'', ''Adj Close''],
                    rows = [(1, [Some 11, Some 10]), (2, [Some 21, Some 20]),
                            (3, [Some 31, Some 30]), (4, [Some 41, Some 40])]\<rparr> 2 None (Some 3) = Inr v
       \<and> getitem ''SMA2 3'' v = Inr col
       \<and> last col = (4, Some 30)"
proof -
  let ?S = "[(1::int, Some (10::real)), (2, Some 20), (3, Some 30), (4, Some 40)]"
  have xs: "map snd ?S = map Some [10, 20, 30, 40]" by simp
  have d: "distinct (map fst ?S)" by simp
  have valid: "\<forall>q. None = Some q \<or> Some 3 = Some q \<longrightarrow> 0 \<le> (q::int)" by simp
  have which: "None = Some (3::int) \<and> ''SMA2 '' = ''SMA '' \<or> Some (3::int) = Some 3 \<and> ''SMA2 '' = ''SMA2 ''"
    by simp
  have P: "0 < (3::int)" and w: "0 < (2::int)" and enough: "nat 3 \<le> length ?S" by simp_all
  from last_overlay_value [OF example_adj_close xs d valid P enough w which]
  obtain v col where run: "data_view \<lparr>columns = [''Close'', ''Adj Close''],
                    rows = [(1, [Some 11, Some 10]), (2, [Some 21, Some 20]),
                            (3, [Some 31, Some 30]), (4, [Some 41, Some 40])]\<rparr> 2 None (Some 3) = Inr v"
    and col: "getitem (''SMA2 '' @ str_nat (nat 3)) v = Inr col"
    and l: "last col = (fst (last ?S),
              Some (sum_list (drop (length [10, 20, 30, 40::real] - nat 3) [10, 20, 30, 40]) / real_of_int 3))"
    by blast
  from col have "getitem ''SMA2 3'' v = Inr col" by (simp add: str_nat_examples)
  moreover from l have "last col = (4, Some 30)" by simp
  ultimately show ?thesis using run by blast
qed

text \<open>
  Claim C6. The run succeeds, the overlay column has one cell for each windowed date,
  and at every windowed row with fewer than \<open>P\<close> values of the full series up to and
  including it the cell is null: no number, and no error.
\<close>

theorem overlay_undefined_without_history:
  assumes s: "getitem ''Adj Close'' data = Inr s"
    and d: "distinct (map fst s)"
    and valid: "\<forall>q. sma = Some q \<or> sma2 = Some q \<longrightarrow> 0 \<le> q"
    and w: "0 < w"
    and which: "sma = Some P \<and> prefix = ''SMA '' \<or> sma2 = Some P \<and> prefix = ''SMA2 ''"
  shows "\<exists>v col. data_view data w sma sma2 = Inr v
           \<and> getitem (prefix @ str_nat (nat P)) v = Inr col
           \<and> index v = drop (length s - nat w) (map fst s)
           \<and> map fst col = index v
           \<and> (\<forall>t<length col. Suc (length s - nat w + t) < nat P \<longrightarrow> snd (col ! t) = None)"
proof -
  define k where "k = length s - nat w"
  define f where "f = (\<lambda>j. (fst (s ! j), window_mean (nat P) (map snd s) j))"
  from view_columns [OF s d valid w which]
  obtain v where run: "data_view data w sma sma2 = Inr v"
    and idx: "index v = map fst (drop k s)"
    and col: "getitem (prefix @ str_nat (nat P)) v = Inr (map f [k..<length s])"
    unfolding k_def f_def by blast
  have dates: "map fst (map f [k..<length s]) = index v"
    by (simp add: idx f_def o_def drop_as_upt [of k s])
  have none: "snd (map f [k..<length s] ! t) = None"
    if "t < length (map f [k..<length s])" "Suc (k + t) < nat P" for t
  proof -
    from that(1) have t: "k + t < length s" by simp
    then have e: "[k..<length s] ! t = k + t" by (rule nth_upt)
    from t have "t < length [k..<length s]" by simp
    then have "map f [k..<length s] ! t = f ([k..<length s] ! t)" by (rule nth_map)
    then show ?thesis using that(2) by (simp only: e f_def snd_conv window_mean_None)
  qed
  have idx': "index v = drop k (map fst s)" by (simp add: idx drop_map)
  from run col idx' dates none show ?thesis unfolding k_def by blast
qed

theorem overlay_undefined_without_history_witness:
  "\<exists>v col. data_view \<lparr>columns = [''Close'', ''Adj Close''],
                    rows = [(1, [Some 11, Some 10]), (2, [Some 21, Some 20]),
                            (3, [Some 31, Some 30]), (4, [Some 41, Some 40])]\<rparr> 2 (Some 2) (Some 4) = Inr v
       \<and> getitem ''SMA2 4'' v = Inr col
       \<and> map fst col = [3, 4]
       \<and> snd (col ! 0) = None"
proof -
  let ?S = "[(1::int, Some (10::real)), (2, Some 20), (3, Some 30), (4, Some 40)]"
  have d: "distinct (map fst ?S)" by simp
  have valid: "\<forall>q. Some 2 = Some q \<or> Some 4 = Some q \<longrightarrow> 0 \<le> (q::int)" by auto
  have which: "Some (2::int) = Some 4 \<and> ''SMA2 '' = ''SMA '' \<or> Some (4::int) = Some 4 \<and> ''SMA2 '' = ''SMA2 ''"
    by simp
  have w: "0 < (2::int)" by simp
  from overlay_undefined_without_history [OF example_adj_close d valid w which]
  obtain v col where run: "data_view \<lparr>columns = [''Close'', ''Adj Close''],
                    rows = [(1, [Some 11, Some 10]), (2, [Some 21, Some 20]),
                            (3, [Some 31, Some 30]), (4, [Some 41, Some 40])]\<rparr> 2 (Some 2) (Some 4) = Inr v"
    and col: "getitem (''SMA2 '' @ str_nat (nat 4)) v = Inr col"
    and idx: "index v = drop (length ?S - nat 2) (map fst ?S)"
    and dates: "map fst col = index v"
    and none: "\<forall>t<length col. Suc (length ?S - nat 2 + t) < nat 4 \<longrightarrow> snd (col ! t) = None"
    by blast
  have s4: "str_nat 4 = ''4''" by (simp add: str_nat.simps digit_char_def)
  from idx dates have fst_col: "map fst col = [3, 4]" by simp
  then have "length (map fst col) = 2" by simp
  then have "0 < length col" by simp
  with none have "Suc (length ?S - nat 2 + 0) < nat 4 \<longrightarrow> snd (col ! 0) = None" by blast
  then have "snd (col ! 0) = None" by simp
  moreover from col have "getitem ''SMA2 4'' v = Inr col" by (simp add: s4)
  ultimately show ?thesis using run fst_col
    by (intro exI [of _ v] exI [of _ col] conjI)
qed

section \<open>The full series is left as it was\<close>

lemma add_overlay_frame:
  assumes "n \<le> b"
  shows "take n (fst (add_overlay h a b prefix p)) = take n h"
    and "length (fst (add_overlay h a b prefix p)) = length h"
  using assms by (simp_all add: add_overlay_def split: sum.splits)

lemma optional_overlay_frame:
  assumes "n \<le> b"
  shows "take n (fst (optional_overlay h a b prefix choice)) = take n h"
    and "length (fst (optional_overlay h a b prefix choice)) = length h"
  using assms by (simp_all add: optional_overlay_def add_overlay_frame split: option.splits)

lemma main_data_view_frame:
  "take (length h) (fst (main_data_view h a section sma sma2)) = h"
proof -
  let ?sl = "row_slice_from (- section) (h ! a)"
  show ?thesis
  proof (cases "select [''Adj Close''] ?sl")
    case (Inl e)
    then show ?thesis
      by (simp add: main_data_view_def alloc_def)
  next
    case (Inr projected)
    let ?h3 = "h @ [?sl, projected, projected]"
    let ?b = "Suc (Suc (length h))"
    obtain h4 r1 where r1: "optional_overlay ?h3 a ?b ''SMA '' sma = (h4, r1)"
      by (cases "optional_overlay ?h3 a ?b ''SMA '' sma")
    obtain h5 r2 where r2: "optional_overlay h4 a ?b ''SMA2 '' sma2 = (h5, r2)"
      by (cases "optional_overlay h4 a ?b ''SMA2 '' sma2")
    have le: "length h \<le> ?b" by simp
    have t4: "take (length h) h4 = h"
      using optional_overlay_frame(1) [OF le, of ?h3 a "''SMA ''" sma] by (simp add: r1)
    have t5: "take (length h) h5 = h"
      using optional_overlay_frame(1) [OF le, of h4 a "''SMA2 ''" sma2] by (simp add: r2 t4)
    have "fst (main_data_view h a section sma sma2) = h4 \<or> fst (main_data_view h a section sma sma2) = h5"
      using Inr by (simp add: main_data_view_def alloc_def nth_append r1 r2 split: sum.splits)
    with t4 t5 show ?thesis by auto
  qed
qed

lemma data_view_on_heap:
  assumes a: "a < length h"
    and s: "getitem ''Adj Close'' (h ! a) = Inr s"
    and d: "sma \<noteq> None \<or> sma2 \<noteq> None \<longrightarrow> distinct (map fst s)"
    and p1: "\<forall>p. sma = Some p \<longrightarrow> 0 \<le> p"
    and p2: "\<forall>p. sma2 = Some p \<longrightarrow> 0 \<le> p"
    and run: "main_data_view h a section sma sma2 = (h', Inr b)"
  shows "data_view (h ! a) section sma sma2 = Inr (h' ! b)"
proof -
  define k where "k = nat (if - section < 0 then max 0 (- section + int (length s))
                     else min (- section) (int (length s)))"
  have a0: "0 < length [h ! a]" by simp
  have s0: "getitem ''Adj Close'' ([h ! a] ! 0) = Inr s" using s by simp
  note big = main_data_view_run [OF a s d p1 p2 k_def]
  note small = main_data_view_run [OF a0 s0 d p1 p2 k_def]
  from run big have "h' ! b = (h @ [row_slice_from (- section) (h ! a),
           \<lparr>columns = [''Adj Close''],
            rows = map (\<lambda>j. (fst (s ! j), [snd (s ! j)])) [k..<length s]\<rparr>,
           \<lparr>columns = [''Adj Close''] @
              (case sma of None \<Rightarrow> [] | Some p \<Rightarrow> [''SMA '' @ str_nat (nat p)]) @
              (case sma2 of None \<Rightarrow> [] | Some p \<Rightarrow> [''SMA2 '' @ str_nat (nat p)]),
            rows = map (\<lambda>j. (fst (s ! j), [snd (s ! j)] @
                     (case sma of None \<Rightarrow> [] | Some p \<Rightarrow> [window_mean (nat p) (map snd s) j]) @
                     (case sma2 of None \<Rightarrow> [] | Some p \<Rightarrow> [window_mean (nat p) (map snd s) j])))
                   [k..<length s]\<rparr>]) ! (length h + 2)"
    by simp
  then show ?thesis
    unfolding data_view_def small by (simp add: nth_append)
qed

text \<open>
  Claim C10. Whatever the run does, also when it fails, every frame that was in the
  store before it is unchanged afterwards: the slice, the projection and the copy are
  new objects, and the overlays are written into the copy. For a frame \<^verbatim>\<open>data\<close>
  with one \<^verbatim>\<open>Adj Close\<close> column, distinct dates and overlay periods that are not
  negative, the run succeeds; \<^verbatim>\<open>data_view\<close> is a new object that holds the table
  \<^verbatim>\<open>data_view\<close> computes; and against the view without overlays it has the same
  dates and the same \<^verbatim>\<open>Adj Close\<close> column, the windowed part of the full series.
\<close>

theorem view_is_built_on_a_copy:
  "take (length h) (fst (main_data_view h a section sma sma2)) = h
   \<and> (a < length h \<and> getitem ''Adj Close'' (h ! a) = Inr s \<and> distinct (map fst s)
        \<and> (\<forall>q. sma = Some q \<or> sma2 = Some q \<longrightarrow> 0 \<le> q)
      \<longrightarrow> (\<exists>h' b plain. main_data_view h a section sma sma2 = (h', Inr b)
            \<and> h' ! a = h ! a \<and> length h \<le> b \<and> b < length h'
            \<and> data_view (h ! a) section sma sma2 = Inr (h' ! b)
            \<and> data_view (h ! a) section None None = Inr plain
            \<and> index (h' ! b) = index plain
            \<and> getitem ''Adj Close'' (h' ! b) = getitem ''Adj Close'' plain
            \<and> getitem ''Adj Close'' plain = Inr (slice_from (- section) s)))"
proof (intro conjI impI)
  show "take (length h) (fst (main_data_view h a section sma sma2)) = h"
    by (rule main_data_view_frame)
next
  assume asm: "a < length h \<and> getitem ''Adj Close'' (h ! a) = Inr s \<and> distinct (map fst s)
        \<and> (\<forall>q. sma = Some q \<or> sma2 = Some q \<longrightarrow> 0 \<le> q)"
  then have a: "a < length h" and s: "getitem ''Adj Close'' (h ! a) = Inr s"
    and d: "sma \<noteq> None \<or> sma2 \<noteq> None \<longrightarrow> distinct (map fst s)"
    and p1: "\<forall>p. sma = Some p \<longrightarrow> 0 \<le> p" and p2: "\<forall>p. sma2 = Some p \<longrightarrow> 0 \<le> p"
    by simp_all
  define k where "k = nat (if - section < 0 then max 0 (- section + int (length s))
                     else min (- section) (int (length s)))"
  define c where "c = (case sma of None \<Rightarrow> [] | Some p \<Rightarrow> [''SMA '' @ str_nat (nat p)]) @
              (case sma2 of None \<Rightarrow> [] | Some p \<Rightarrow> [''SMA2 '' @ str_nat (nat p)])"
  define F where "F = (\<lambda>j. [snd (s ! j)] @
                     (case sma of None \<Rightarrow> [] | Some p \<Rightarrow> [window_mean (nat p) (map snd s) j]) @
                     (case sma2 of None \<Rightarrow> [] | Some p \<Rightarrow> [window_mean (nat p) (map snd s) j]))"
  define v :: quotes where
    "v = \<lparr>columns = [''Adj Close''] @ c, rows = map (\<lambda>j. (fst (s ! j), F j)) [k..<length s]\<rparr>"
  define plain :: quotes where
    "plain = \<lparr>columns = [''Adj Close''], rows = map (\<lambda>j. (fst (s ! j), [snd (s ! j)])) [k..<length s]\<rparr>"
  define h' where "h' = h @ [row_slice_from (- section) (h ! a), plain, v]"
  have run: "main_data_view h a section sma sma2 = (h', Inr (length h + 2))"
    unfolding h'_def plain_def v_def c_def F_def
    by (rule main_data_view_run [OF a s d p1 p2 k_def])
  have keep: "h' ! a = h ! a" using a by (simp add: h'_def nth_append)
  have at_b: "h' ! (length h + 2) = v" by (simp add: h'_def nth_append)
  have bounds: "length h \<le> length h + 2" "length h + 2 < length h'" by (simp_all add: h'_def)
  have pure: "data_view (h ! a) section sma sma2 = Inr (h' ! (length h + 2))"
    by (rule data_view_on_heap [OF a s d p1 p2 run])
  have a0: "0 < length [h ! a]" by simp
  have s0: "getitem ''Adj Close'' ([h ! a] ! 0) = Inr s" using s by simp
  have pl: "data_view (h ! a) section None None = Inr plain"
    unfolding data_view_def main_data_view_run [OF a0 s0 _ _ _ k_def, where sma = None and ?sma2.0 = None, simplified]
    by (simp add: plain_def)
  have idx: "index v = index plain" by (simp add: v_def plain_def index_def o_def)
  have "positions ''Adj Close'' ([''Adj Close''] @ c) = [0]"
    unfolding c_def by (rule view_positions(1))
  then have "getitem ''Adj Close'' v = Inr (map (\<lambda>j. (fst (s ! j), cell_at (F j) 0)) [k..<length s])"
    unfolding v_def by (rule getitem_at)
  then have gv: "getitem ''Adj Close'' v = Inr (drop k s)"
    by (simp add: F_def cell_at_def drop_as_upt [of k s, symmetric])
  have "positions ''Adj Close'' [''Adj Close''] = [0]" by (simp add: positions_def)
  then have "getitem ''Adj Close'' plain
      = Inr (map (\<lambda>j. (fst (s ! j), cell_at [snd (s ! j)] 0)) [k..<length s])"
    unfolding plain_def by (rule getitem_at)
  then have gp: "getitem ''Adj Close'' plain = Inr (drop k s)"
    by (simp add: cell_at_def drop_as_upt [of k s, symmetric])
  have sl: "slice_from (- section) s = drop k s"
    by (simp add: slice_from_as_drop k_def)
  from run keep bounds pure pl idx gv gp sl at_b
  show "\<exists>h' b plain. main_data_view h a section sma sma2 = (h', Inr b)
            \<and> h' ! a = h ! a \<and> length h \<le> b \<and> b < length h'
            \<and> data_view (h ! a) section sma sma2 = Inr (h' ! b)
            \<and> data_view (h ! a) section None None = Inr plain
            \<and> index (h' ! b) = index plain
            \<and> getitem ''Adj Close'' (h' ! b) = getitem ''Adj Close'' plain
            \<and> getitem ''Adj Close'' plain = Inr (slice_from (- section) s)"
    by (intro exI [of _ h'] exI [of _ "length h + 2"] exI [of _ plain]) simp
qed

theorem view_is_built_on_a_copy_witness:
  "take 1 (fst (main_data_view [\<lparr>columns = [''Close'', ''Adj Close''],
                    rows = [(1, [Some 11, Some 10]), (2, [Some 21, Some 20]),
                            (3, [Some 31, Some 30]), (4, [Some 41, Some 40])]\<rparr>] 0 2 (Some 3) None))
     = [\<lparr>columns = [''Close'', ''Adj Close''],
                    rows = [(1, [Some 11, Some 10]), (2, [Some 21, Some 20]),
                            (3, [Some 31, Some 30]), (4, [Some 41, Some 40])]\<rparr>]
   \<and> (\<exists>h' b. main_data_view [\<lparr>columns = [''Close'', ''Adj Close''],
                    rows = [(1, [Some 11, Some 10]), (2, [Some 21, Some 20]),
                            (3, [Some 31, Some 30]), (4, [Some 41, Some 40])]\<rparr>] 0 2 (Some 3) None
                 = (h', Inr b)
          \<and> h' ! 0 = \<lparr>columns = [''Close'', ''Adj Close''],
                    rows = [(1, [Some 11, Some 10]), (2, [Some 21, Some 20]),
                            (3, [Some 31, Some 30]), (4, [Some 41, Some 40])]\<rparr>
          \<and> 1 \<le> b
          \<and> getitem ''Adj Close'' (h' ! b) = Inr [(3, Some 30), (4, Some 40)])"
proof -
  let ?D = "\<lparr>columns = [''Close'', ''Adj Close''],
                    rows = [(1, [Some 11, Some 10]), (2, [Some 21, Some 20]),
                            (3, [Some 31, Some 30]), (4, [Some 41, Some 40])]\<rparr> :: quotes"
  let ?S = "[(1::int, Some (10::real)), (2, Some 20), (3, Some 30), (4, Some 40)]"
  note t = view_is_built_on_a_copy [of "[?D]" 0 2 "Some 3" None ?S]
  have pre: "0 < length [?D] \<and> getitem ''Adj Close'' ([?D] ! 0) = Inr ?S \<and> distinct (map fst ?S)
        \<and> (\<forall>q. Some 3 = Some q \<or> None = Some q \<longrightarrow> 0 \<le> (q::int))"
    by (simp add: example_adj_close)
  from t [THEN conjunct2, THEN mp, OF pre]
  obtain h' b plain where run: "main_data_view [?D] 0 2 (Some 3) None = (h', Inr b)"
    and keep: "h' ! 0 = [?D] ! 0" and b: "length [?D] \<le> b"
    and same: "getitem ''Adj Close'' (h' ! b) = getitem ''Adj Close'' plain"
    and adj: "getitem ''Adj Close'' plain = Inr (slice_from (- 2) ?S)"
    by blast
  have "slice_from (- 2) ?S = [(3, Some 30), (4, Some 40)]"
    by (simp add: slice_from_def)
  with same adj have g: "getitem ''Adj Close'' (h' ! b) = Inr [(3, Some 30), (4, Some 40)]"
    by simp
  from keep have k: "h' ! 0 = ?D" by simp
  from b have b1: "1 \<le> b" by simp
  from t [THEN conjunct1] have f: "take 1 (fst (main_data_view [?D] 0 2 (Some 3) None)) = [?D]"
    by simp
  from run k b1 g have "\<exists>h' b. main_data_view [?D] 0 2 (Some 3) None = (h', Inr b)
          \<and> h' ! 0 = ?D \<and> 1 \<le> b
          \<and> getitem ''Adj Close'' (h' ! b) = Inr [(3, Some 30), (4, Some 40)]"
    by (intro exI [of _ h'] exI [of _ b] conjI)
  with f show ?thesis by (rule conjI)
qed

section \<open>Loading quotes: the cache, errors and column labels\<close>

lemma load_quotes_miss:
  assumes "cache symbol = None"
  shows "load_quotes cache yf_download symbol =
           (case load_quotes_body yf_download symbol of
              Inl e \<Rightarrow> (Inl e, cache)
            | Inr data \<Rightarrow> (Inr data, cache(symbol \<mapsto> data)))"
  using assms by (simp add: load_quotes_def)





text \<open>
  Claim C9. The provider, called as on line 27, labels the columns of its answer by the
  quote fields, flat or with the field on the first level of a multi-level labelling.
  For every such answer \<^verbatim>\<open>load_quotes\<close> returns (and caches) the rows of the answer,
  indexed by date as they came, under flat labels that are the first level of the
  answer's: the six fields open, high, low, close, adjusted close and volume.
\<close>

theorem load_quotes_flattens_labels:
  assumes miss: "cache symbol = None"
    and answer: "yf_download symbol ''max'' False = Inr data"
    and fields: "case raw_columns data of
                   Index ls \<Rightarrow> distinct ls \<and>
                     set ls = {''Open'', ''High'', ''Low'', ''Close'', ''Adj Close'', ''Volume''}
                 | MultiIndex ts \<Rightarrow> distinct (map fst ts) \<and>
                     set (map fst ts) = {''Open'', ''High'', ''Low'', ''Close'', ''Adj Close'', ''Volume''}"
  shows "\<exists>q. load_quotes cache yf_download symbol = (Inr q, cache(symbol \<mapsto> q))
           \<and> columns q = (case raw_columns data of Index ls \<Rightarrow> ls | MultiIndex ts \<Rightarrow> map fst ts)
           \<and> distinct (columns q)
           \<and> set (columns q) = {''Open'', ''High'', ''Low'', ''Close'', ''Adj Close'', ''Volume''}
           \<and> rows q = raw_rows data
           \<and> index q = map fst (raw_rows data)"
  using assms
  by (cases "raw_columns data")
     (simp_all add: load_quotes_miss load_quotes_body_def get_level_values_0_def index_def)

theorem load_quotes_flattens_labels_witness:
  "\<exists>q. fst (load_quotes Map.empty (\<lambda>symbol period auto_adjust.
           Inr \<lparr>raw_columns = MultiIndex [(''Adj Close'', [symbol]), (''Close'', [symbol]), (''High'', [symbol]),
                                            (''Low'', [symbol]), (''Open'', [symbol]), (''Volume'', [symbol])],
                raw_rows = [(1, [Some 10, Some 11, Some 12, Some 9, Some 10, Some 1000])]\<rparr>) ''AAPL'') = Inr q
      \<and> columns q = [''Adj Close'', ''Close'', ''High'', ''Low'', ''Open'', ''Volume'']
      \<and> index q = [1]"
proof -
  let ?dl = "\<lambda>symbol period auto_adjust.
           Inr \<lparr>raw_columns = MultiIndex [(''Adj Close'', [symbol]), (''Close'', [symbol]), (''High'', [symbol]),
                                            (''Low'', [symbol]), (''Open'', [symbol]), (''Volume'', [symbol])],
                raw_rows = [(1::int, [Some (10::real), Some 11, Some 12, Some 9, Some 10, Some 1000])]\<rparr>
              :: error + raw_frame"
  let ?data = "\<lparr>raw_columns = MultiIndex [(''Adj Close'', [''AAPL'']), (''Close'', [''AAPL'']), (''High'', [''AAPL'']),
                                            (''Low'', [''AAPL'']), (''Open'', [''AAPL'']), (''Volume'', [''AAPL''])],
                raw_rows = [(1::int, [Some (10::real), Some 11, Some 12, Some 9, Some 10, Some 1000])]\<rparr>"
  have miss: "Map.empty ''AAPL'' = (None :: quotes option)" by simp
  have answer: "?dl ''AAPL'' ''max'' False = Inr ?data" by simp
  have fields: "case raw_columns ?data of
                   Index ls \<Rightarrow> distinct ls \<and>
                     set ls = {''Open'', ''High'', ''Low'', ''Close'', ''Adj Close'', ''Volume''}
                 | MultiIndex ts \<Rightarrow> distinct (map fst ts) \<and>
                     set (map fst ts) = {''Open'', ''High'', ''Low'', ''Close'', ''Adj Close'', ''Volume''}"
    by auto
  note t = load_quotes_flattens_labels [of Map.empty "''AAPL''" ?dl ?data]
  from t [OF miss answer fields]
  obtain q where "load_quotes Map.empty ?dl ''AAPL'' = (Inr q, Map.empty(''AAPL'' \<mapsto> q))"
    and "columns q = (case raw_columns ?data of Index ls \<Rightarrow> ls | MultiIndex ts \<Rightarrow> map fst ts)"
    and "index q = map fst (raw_rows ?data)"
    by blast
  then have "fst (load_quotes Map.empty ?dl ''AAPL'') = Inr q
      \<and> columns q = [''Adj Close'', ''Close'', ''High'', ''Low'', ''Open'', ''Volume'']
      \<and> index q = [1]"
    by simp
  then show ?thesis by (rule exI)
qed

section \<open>Rows with a null are dropped before use\<close>

lemma complete_row_iff: "complete_row n cs \<longleftrightarrow> (\<forall>i<n. cell_at cs i \<noteq> None)"
  by (auto simp add: complete_row_def list_all_iff)

lemma main_unfold:
  assumes "load_quotes cache yf_download asset = (Inr loaded, cache')"
  shows "main st cache yf_download asset =
     (data_view (dropna loaded)
        (slider st ''Number of Quotes'' 30 (min 2000 (int (length (rows (dropna loaded))))) 500 (Some 10))
        (if checkbox st ''SMA'' then Some (slider st ''SMA Period'' 5 500 20 None) else None)
        (if checkbox st ''SMA 2'' then Some (slider st ''SMA 2 Period'' 5 500 100 None) else None),
      cache')"
  using assms by (simp add: main_def Let_def)

lemma dropna_series_complete:
  assumes "getitem l (dropna f) = Inr s"
  shows "\<forall>c \<in> set s. snd c \<noteq> None"
proof -
  from assms obtain i where i: "positions l (columns (dropna f)) = [i]"
    and s: "s = map (\<lambda>r. (fst r, cell_at (snd r) i)) (rows (dropna f))"
    by (rule getitem_InrD)
  have "\<forall>r \<in> set (rows (dropna f)). \<forall>i<length (columns (dropna f)). cell_at (snd r) i \<noteq> None"
    by (simp add: dropna_def complete_row_iff)
  with positions_singleD(3) [OF i] s show ?thesis by auto
qed

lemma data_view_adj_close:
  assumes s: "getitem ''Adj Close'' data = Inr s"
    and d: "sma \<noteq> None \<or> sma2 \<noteq> None \<longrightarrow> distinct (map fst s)"
    and p1: "\<forall>p. sma = Some p \<longrightarrow> 0 \<le> p"
    and p2: "\<forall>p. sma2 = Some p \<longrightarrow> 0 \<le> p"
  shows "\<exists>v. data_view data section sma sma2 = Inr v
           \<and> index v = map fst (slice_from (- section) s)
           \<and> getitem ''Adj Close'' v = Inr (slice_from (- section) s)"
proof -
  define k where "k = nat (if - section < 0 then max 0 (- section + int (length s))
                     else min (- section) (int (length s)))"
  define c where "c = (case sma of None \<Rightarrow> [] | Some p \<Rightarrow> [''SMA '' @ str_nat (nat p)]) @
              (case sma2 of None \<Rightarrow> [] | Some p \<Rightarrow> [''SMA2 '' @ str_nat (nat p)])"
  define F where "F = (\<lambda>j. [snd (s ! j)] @
                     (case sma of None \<Rightarrow> [] | Some p \<Rightarrow> [window_mean (nat p) (map snd s) j]) @
                     (case sma2 of None \<Rightarrow> [] | Some p \<Rightarrow> [window_mean (nat p) (map snd s) j]))"
  define v :: quotes where
    "v = \<lparr>columns = [''Adj Close''] @ c, rows = map (\<lambda>j. (fst (s ! j), F j)) [k..<length s]\<rparr>"
  have a0: "0 < length [data]" by simp
  have s0: "getitem ''Adj Close'' ([data] ! 0) = Inr s" using s by simp
  have run: "data_view data section sma sma2 = Inr v"
    unfolding data_view_def main_data_view_run [OF a0 s0 d p1 p2 k_def]
    by (simp add: v_def c_def F_def)
  have sl: "slice_from (- section) s = drop k s"
    by (simp add: slice_from_as_drop k_def)
  have idx: "index v = map fst (drop k s)"
    by (simp add: v_def index_def o_def drop_as_upt [of k s])
  have "positions ''Adj Close'' ([''Adj Close''] @ c) = [0]"
    unfolding c_def by (rule view_positions(1))
  then have "getitem ''Adj Close'' v = Inr (map (\<lambda>j. (fst (s ! j), cell_at (F j) 0)) [k..<length s])"
    unfolding v_def by (rule getitem_at)
  then have "getitem ''Adj Close'' v = Inr (drop k s)"
    by (simp add: F_def cell_at_def drop_as_upt [of k s, symmetric])
  with run idx show ?thesis unfolding sl by blast
qed

lemma slice_from_subset: "set (slice_from b xs) \<subseteq> set xs"
  by (simp add: slice_from_as_drop set_drop_subset)

text \<open>
  Claim C7. \<^verbatim>\<open>main\<close> builds the view, with what the widgets answer, from
  \<^verbatim>\<open>load_quotes(asset).dropna()\<close> and from nothing else. That series has the columns of
  the loaded frame and exactly its rows without a null cell, in their order, so no row
  and no column read from it carries a null; and the \<^verbatim>\<open>Adj Close\<close> column of the view
  that \<^verbatim>\<open>main\<close> returns has no null.
\<close>

theorem quotes_complete_before_windowing:
  assumes "load_quotes cache yf_download asset = (Inr loaded, cache')"
  shows "main st cache yf_download asset =
           (data_view (dropna loaded)
              (slider st ''Number of Quotes'' 30
                 (min 2000 (int (length (rows (dropna loaded))))) 500 (Some 10))
              (if checkbox st ''SMA'' then Some (slider st ''SMA Period'' 5 500 20 None) else None)
              (if checkbox st ''SMA 2'' then Some (slider st ''SMA 2 Period'' 5 500 100 None)
               else None),
            cache')
       \<and> columns (dropna loaded) = columns loaded
       \<and> rows (dropna loaded) =
           filter (\<lambda>r. \<forall>i<length (columns loaded). cell_at (snd r) i \<noteq> None) (rows loaded)
       \<and> (\<forall>r \<in> set (rows (dropna loaded)).
             \<forall>i<length (columns (dropna loaded)). cell_at (snd r) i \<noteq> None)
       \<and> (\<forall>l s. getitem l (dropna loaded) = Inr s \<longrightarrow> (\<forall>c \<in> set s. snd c \<noteq> None))
       \<and> (\<forall>s. getitem ''Adj Close'' (dropna loaded) = Inr s \<and> distinct (map fst s)
               \<and> 0 \<le> slider st ''SMA Period'' 5 500 20 None
               \<and> 0 \<le> slider st ''SMA 2 Period'' 5 500 100 None
             \<longrightarrow> (\<exists>v col. fst (main st cache yf_download asset) = Inr v
                    \<and> getitem ''Adj Close'' v = Inr col
                    \<and> set col \<subseteq> set s
                    \<and> (\<forall>c \<in> set col. snd c \<noteq> None)))"
proof (intro conjI allI impI)
  show "main st cache yf_download asset =
           (data_view (dropna loaded)
              (slider st ''Number of Quotes'' 30
                 (min 2000 (int (length (rows (dropna loaded))))) 500 (Some 10))
              (if checkbox st ''SMA'' then Some (slider st ''SMA Period'' 5 500 20 None) else None)
              (if checkbox st ''SMA 2'' then Some (slider st ''SMA 2 Period'' 5 500 100 None)
               else None),
            cache')"
    by (rule main_unfold [OF assms])
  show "columns (dropna loaded) = columns loaded" by (simp add: dropna_def)
  show "rows (dropna loaded) =
           filter (\<lambda>r. \<forall>i<length (columns loaded). cell_at (snd r) i \<noteq> None) (rows loaded)"
    by (simp add: dropna_def complete_row_iff)
  show "\<forall>r \<in> set (rows (dropna loaded)).
             \<forall>i<length (columns (dropna loaded)). cell_at (snd r) i \<noteq> None"
    by (simp add: dropna_def complete_row_iff)
next
  fix l s assume "getitem l (dropna loaded) = Inr s"
  then show "\<forall>c \<in> set s. snd c \<noteq> None" by (rule dropna_series_complete)
next
  fix s
  assume h: "getitem ''Adj Close'' (dropna loaded) = Inr s \<and> distinct (map fst s)
               \<and> 0 \<le> slider st ''SMA Period'' 5 500 20 None
               \<and> 0 \<le> slider st ''SMA 2 Period'' 5 500 100 None"
  define w where "w = slider st ''Number of Quotes'' 30
                 (min 2000 (int (length (rows (dropna loaded))))) 500 (Some 10)"
  define sma where "sma = (if checkbox st ''SMA'' then Some (slider st ''SMA Period'' 5 500 20 None) else None)"
  define sma2 where "sma2 = (if checkbox st ''SMA 2'' then Some (slider st ''SMA 2 Period'' 5 500 100 None)
               else None)"
  from h have s: "getitem ''Adj Close'' (dropna loaded) = Inr s"
    and d: "sma \<noteq> None \<or> sma2 \<noteq> None \<longrightarrow> distinct (map fst s)"
    and p1: "\<forall>p. sma = Some p \<longrightarrow> 0 \<le> p" and p2: "\<forall>p. sma2 = Some p \<longrightarrow> 0 \<le> p"
    by (simp_all add: sma_def sma2_def)
  from data_view_adj_close [OF s d p1 p2]
  obtain v where run: "data_view (dropna loaded) w sma sma2 = Inr v"
    and col: "getitem ''Adj Close'' v = Inr (slice_from (- w) s)"
    by blast
  have m: "fst (main st cache yf_download asset) = Inr v"
    by (simp add: main_unfold [OF assms] run [unfolded w_def sma_def sma2_def])
  have sub: "set (slice_from (- w) s) \<subseteq> set s" by (rule slice_from_subset)
  from dropna_series_complete [OF s] sub
  have nn: "\<forall>c \<in> set (slice_from (- w) s). snd c \<noteq> None" by blast
  from m col sub nn
  show "\<exists>v col. fst (main st cache yf_download asset) = Inr v
                    \<and> getitem ''Adj Close'' v = Inr col
                    \<and> set col \<subseteq> set s
                    \<and> (\<forall>c \<in> set col. snd c \<noteq> None)"
    by blast
qed


lemma example_load_quotes:
  "load_quotes Map.empty (\<lambda>symbol period auto_adjust.
         Inr \<lparr>raw_columns = MultiIndex [(''Adj Close'', [''AAPL'']), (''Close'', [''AAPL''])],
              raw_rows = [(1, [Some 10, Some 11]), (2, [None, Some 21]), (3, [Some 30, Some 31])]\<rparr>)
       ''AAPL''
   = (Inr \<lparr>columns = [''Adj Close'', ''Close''],
              rows = [(1, [Some 10, Some 11]), (2, [None, Some 21]), (3, [Some 30, Some 31])]\<rparr>,
      [''AAPL'' \<mapsto> \<lparr>columns = [''Adj Close'', ''Close''],
              rows = [(1, [Some 10, Some 11]), (2, [None, Some 21]), (3, [Some 30, Some 31])]\<rparr>])"
  by (simp add: load_quotes_def load_quotes_body_def get_level_values_0_def)

lemma example_dropna:
  "dropna \<lparr>columns = [''Adj Close'', ''Close''],
              rows = [(1::int, [Some (10::real), Some 11]), (2, [None, Some 21]), (3, [Some 30, Some 31])]\<rparr>
   = \<lparr>columns = [''Adj Close'', ''Close''],
              rows = [(1, [Some 10, Some 11]), (3, [Some 30, Some 31])]\<rparr>"
  by (simp add: dropna_def complete_row_iff All_less_Suc cell_at_def)

theorem quotes_complete_before_windowing_witness:
  "fst (main \<lparr>slider = \<lambda>label min_value max_value value step. value, checkbox = \<lambda>label. False\<rparr>
          Map.empty
          (\<lambda>symbol period auto_adjust.
             Inr \<lparr>raw_columns = MultiIndex [(''Adj Close'', [''AAPL'']), (''Close'', [''AAPL''])],
                  raw_rows = [(1, [Some 10, Some 11]), (2, [None, Some 21]), (3, [Some 30, Some 31])]\<rparr>)
          ''AAPL'')
   = Inr \<lparr>columns = [''Adj Close''], rows = [(1, [Some 10]), (3, [Some 30])]\<rparr>"
proof -
  let ?st = "\<lparr>slider = \<lambda>label min_value max_value value step. value, checkbox = \<lambda>label. False\<rparr>"
  let ?D = "\<lparr>columns = [''Adj Close'', ''Close''],
              rows = [(1, [Some 10, Some 11]), (3, [Some 30, Some 31])]\<rparr> :: quotes"
  note t = quotes_complete_before_windowing [OF example_load_quotes, where st = ?st]
  from t [THEN conjunct1]
  have m: "fst (main ?st Map.empty
          (\<lambda>symbol period auto_adjust.
             Inr \<lparr>raw_columns = MultiIndex [(''Adj Close'', [''AAPL'']), (''Close'', [''AAPL''])],
                  raw_rows = [(1, [Some 10, Some 11]), (2, [None, Some 21]), (3, [Some 30, Some 31])]\<rparr>)
          ''AAPL'') = data_view ?D 500 None None"
    by (simp add: example_dropna)
  have s: "getitem ''Adj Close'' ?D = Inr [(1, Some 10), (3, Some 30)]"
    by (simp add: getitem_def positions_def cell_at_def)
  have w: "0 < (500::int)" by simp
  have "data_view ?D 500 None None
          = Inr \<lparr>columns = [''Adj Close''], rows = [(1, [Some 10]), (3, [Some 30])]\<rparr>"
    using data_view_run [OF s _ _ _ w, of None None] by (simp add: upt_rec)
  with m show ?thesis by simp
qed

section \<open>The number of rows of the view\<close>




end
